theory Spec2Isabelle
  imports Complex_Main "HOL-Library.Word"
begin

unbundle bit_operations_syntax

section \<open>Bytes, errors and the struct module\<close>

text \<open>
  The driver is Python 2: a \<open>str\<close> is a sequence of bytes, an \<open>int\<close> is unbounded.
  A byte is an \<open>8 word\<close>, a byte string a list of them, and every integer field an
  \<open>int\<close>.
\<close>

type_synonym byte = "8 word"

text \<open>
  The exceptions that can leave the driver. \<open>ProxError\<close> is the driver's own class and
  carries its message; \<open>StructError\<close> is \<open>struct.error\<close>; \<open>USBError\<close> is whatever the USB
  library raises from a transfer; \<open>IndexError\<close> comes from indexing an empty sequence;
  \<open>OverflowError\<close> comes from \<open>xrange\<close>.
\<close>

datatype error = ProxError string | StructError | USBError | IndexError | OverflowError

text \<open>
  The format \<open>"IIII"\<close> has no byte-order prefix, so the four unsigned 32-bit fields are
  laid out in the byte order of the host. The host's order is a parameter of the model.
\<close>

datatype byteorder = LittleEndian | BigEndian

definition native :: "byteorder \<Rightarrow> byte list \<Rightarrow> byte list" where
  "native bo bs = (case bo of LittleEndian \<Rightarrow> bs | BigEndian \<Rightarrow> rev bs)"

definition le_bytes :: "int \<Rightarrow> byte list" where
  "le_bytes v =
     [word_of_int v, word_of_int (v div 2 ^ 8), word_of_int (v div 2 ^ 16), word_of_int (v div 2 ^ 24)]"

definition le_value :: "byte list \<Rightarrow> int" where
  "le_value bs = foldr (\<lambda>b acc. uint b + 256 * acc) bs 0"

text \<open>One \<open>I\<close> field: \<open>struct.pack\<close> refuses a value outside \<open>0 .. 2^32 - 1\<close>.\<close>

definition pack_I :: "byteorder \<Rightarrow> int \<Rightarrow> error + byte list" where
  "pack_I bo v = (if 0 \<le> v \<and> v < 2 ^ 32 then Inr (native bo (le_bytes v)) else Inl StructError)"

definition unpack_I :: "byteorder \<Rightarrow> byte list \<Rightarrow> int" where
  "unpack_I bo bs = le_value (native bo bs)"

text \<open>\<open>struct.pack("IIII", a, b, c, d)\<close>: 16 bytes, or \<open>struct.error\<close>.\<close>

definition struct_pack_IIII :: "byteorder \<Rightarrow> int \<Rightarrow> int \<Rightarrow> int \<Rightarrow> int \<Rightarrow> error + byte list" where
  "struct_pack_IIII bo a b c d =
     (case pack_I bo a of Inl e \<Rightarrow> Inl e | Inr sa \<Rightarrow>
      case pack_I bo b of Inl e \<Rightarrow> Inl e | Inr sb \<Rightarrow>
      case pack_I bo c of Inl e \<Rightarrow> Inl e | Inr sc \<Rightarrow>
      case pack_I bo d of Inl e \<Rightarrow> Inl e | Inr sd \<Rightarrow> Inr (sa @ sb @ sc @ sd))"

text \<open>
  \<open>struct.unpack("IIII", s)\<close>: the string must have exactly 16 bytes, otherwise
  \<open>struct.error\<close> is raised.
\<close>

definition struct_unpack_IIII :: "byteorder \<Rightarrow> byte list \<Rightarrow> error + (int \<times> int \<times> int \<times> int)" where
  "struct_unpack_IIII bo s =
     (if length s \<noteq> 16 then Inl StructError
      else Inr (unpack_I bo (take 4 s),
                unpack_I bo (take 4 (drop 4 s)),
                unpack_I bo (take 4 (drop 8 s)),
                unpack_I bo (take 4 (drop 12 s))))"

section \<open>The command frame: class USBCommand\<close>

record USBCommand =
  cmd :: int
  ext1 :: int
  ext2 :: int
  ext3 :: int
  buf :: "byte list"

text \<open>The class attributes: every field an instance does not set reads as these.\<close>

definition USBCommand_class :: USBCommand where
  "USBCommand_class = \<lparr>cmd = 0, ext1 = 0, ext2 = 0, ext3 = 0, buf = replicate 48 0\<rparr>"

text \<open>
  \<open>USBCommand.__init__(self, blob=None, cmd=None)\<close>. Python's \<open>if blob:\<close> is false for
  \<open>None\<close> and for the empty string, \<open>elif cmd:\<close> is false for \<open>None\<close> and for 0.
  The slices \<open>blob[:16]\<close> and \<open>blob[16:]\<close> are \<open>take 16\<close> and \<open>drop 16\<close>.
\<close>

definition truthy_str :: "byte list option \<Rightarrow> bool" where
  "truthy_str blob = (case blob of None \<Rightarrow> False | Some s \<Rightarrow> s \<noteq> [])"

definition truthy_int :: "int option \<Rightarrow> bool" where
  "truthy_int v = (case v of None \<Rightarrow> False | Some n \<Rightarrow> n \<noteq> 0)"

definition USBCommand_init :: "byteorder \<Rightarrow> byte list option \<Rightarrow> int option \<Rightarrow> error + USBCommand" where
  "USBCommand_init bo blob cmd0 =
     (if truthy_str blob then
        (case blob of None \<Rightarrow> Inr USBCommand_class | Some s \<Rightarrow>
           (case struct_unpack_IIII bo (take 16 s) of
              Inl e \<Rightarrow> Inl e
            | Inr (a, b, c, d) \<Rightarrow>
                Inr (USBCommand_class\<lparr>cmd := a, ext1 := b, ext2 := c, ext3 := d, buf := drop 16 s\<rparr>)))
      else if truthy_int cmd0 then
        (case cmd0 of None \<Rightarrow> Inr USBCommand_class | Some n \<Rightarrow> Inr (USBCommand_class\<lparr>cmd := n\<rparr>))
      else Inr USBCommand_class)"

text \<open>\<open>USBCommand.__str__\<close>: the packed header followed by \<open>buf\<close> as it is.\<close>

definition USBCommand_str :: "byteorder \<Rightarrow> USBCommand \<Rightarrow> error + byte list" where
  "USBCommand_str bo c =
     (case struct_pack_IIII bo (cmd c) (ext1 c) (ext2 c) (ext3 c) of
        Inl e \<Rightarrow> Inl e
      | Inr s \<Rightarrow> Inr (s @ buf c))"

section \<open>The USB library\<close>

text \<open>
  What \<open>usb.busses()\<close> enumerates: busses, their devices with the vendor and product
  identifiers, each device's configurations, each configuration's interfaces, each
  interface a sequence of alternate settings (named here by a number).
\<close>

record usb_configuration =
  interfaces :: "nat list list"

record usb_device =
  idVendor :: int
  idProduct :: int
  configurations :: "usb_configuration list"

record usb_bus =
  devices :: "usb_device list"

text \<open>
  The calls the driver makes on the library, in the order it makes them, are the state
  of the outside world: the device's answer to a call may depend on every call made
  before. A device is therefore a function from the calls so far and the present call
  to either an exception or the bytes returned (the result of a \<open>bulkRead\<close>; the driver
  ignores what the other calls return).
\<close>

datatype usb_call =
    Open usb_device
  | DetachKernelDriver nat
  | SetConfiguration usb_configuration
  | ClaimInterface nat
  | ReleaseInterface
  | BulkWrite int "byte list" int
  | BulkRead int int int

type_synonym usb = "usb_call list \<Rightarrow> usb_call \<Rightarrow> error + byte list"

definition usb_invoke :: "usb \<Rightarrow> usb_call \<Rightarrow> usb_call list \<Rightarrow> (error + byte list) \<times> usb_call list" where
  "usb_invoke env c h = (env h c, h @ [c])"

text \<open>Python's \<open>xs[0]\<close>: \<open>IndexError\<close> on an empty sequence.\<close>

definition index0 :: "'a list \<Rightarrow> error + 'a" where
  "index0 xs = (case xs of [] \<Rightarrow> Inl IndexError | x # _ \<Rightarrow> Inr x)"

text \<open>Python's \<open>"%x" % v\<close> and \<open>"%d" % v\<close> on an integer.\<close>

fun hexdigits :: "nat \<Rightarrow> string" where
  "hexdigits n =
     (if n < 16 then [''0123456789abcdef'' ! n]
      else hexdigits (n div 16) @ [''0123456789abcdef'' ! (n mod 16)])"

fun decdigits :: "nat \<Rightarrow> string" where
  "decdigits n =
     (if n < 10 then [''0123456789'' ! n]
      else decdigits (n div 10) @ [''0123456789'' ! (n mod 10)])"

declare hexdigits.simps [simp del]
declare decdigits.simps [simp del]

definition format_x :: "int \<Rightarrow> string" where
  "format_x v = (if v < 0 then CHR ''-'' # hexdigits (nat (- v)) else hexdigits (nat v))"

definition format_d :: "int \<Rightarrow> string" where
  "format_d v = (if v < 0 then CHR ''-'' # decdigits (nat (- v)) else decdigits (nat v))"

text \<open>Python's \<open>ord\<close> on a one-byte string.\<close>

definition ord_byte :: "byte \<Rightarrow> int" where
  "ord_byte ch = uint ch"

text \<open>
  \<open>xrange(start, stop, step)\<close>. Python 2 converts each argument to a C long and raises
  \<open>OverflowError\<close> for one outside \<open>-sys.maxint - 1 .. sys.maxint\<close>, and again when the
  range would have more than \<open>sys.maxint\<close> items. The width of the host's C long is a
  parameter of the model. The items are those of a positive step, the only kind the
  driver uses.
\<close>

datatype c_long = Long32 | Long64

definition sys_maxint :: "c_long \<Rightarrow> int" where
  "sys_maxint w = (case w of Long32 \<Rightarrow> 2 ^ 31 - 1 | Long64 \<Rightarrow> 2 ^ 63 - 1)"

definition fits_long :: "c_long \<Rightarrow> int \<Rightarrow> bool" where
  "fits_long w v = (- sys_maxint w - 1 \<le> v \<and> v \<le> sys_maxint w)"

function xrange_items :: "int \<Rightarrow> int \<Rightarrow> int \<Rightarrow> int list" where
  "xrange_items start stop step =
     (if 0 < step \<and> start < stop then start # xrange_items (start + step) stop step else [])"
  by pat_completeness auto
termination
  by (relation "measure (\<lambda>(start, stop, step). nat (stop - start))") auto

declare xrange_items.simps [simp del]

definition xrange :: "c_long \<Rightarrow> int \<Rightarrow> int \<Rightarrow> int \<Rightarrow> error + int list" where
  "xrange w start stop step =
     (if \<not> (fits_long w start \<and> fits_long w stop \<and> fits_long w step) then Inl OverflowError
      else if sys_maxint w < int (length (xrange_items start stop step)) then Inl OverflowError
      else Inr (xrange_items start stop step))"

section \<open>class Antenna\<close>

record Antenna =
  name :: string
  voltage :: int
  impedance :: int

definition Antenna_class :: Antenna where
  "Antenna_class = \<lparr>name = [], voltage = 0, impedance = 0\<rparr>"

definition Antenna_init :: "string \<Rightarrow> Antenna" where
  "Antenna_init nm = (if nm \<noteq> [] then Antenna_class\<lparr>name := nm\<rparr> else Antenna_class)"

section \<open>class Proxmark\<close>

definition productID :: int where
  "productID = 0x4b8f"

definition vendorID :: int where
  "vendorID = 0x9ac4"

text \<open>\<open>_find\<close>: the first device, bus by bus, with both identifiers; \<open>None\<close> when the loops end.\<close>

fun Proxmark_find :: "usb_bus list \<Rightarrow> usb_device option" where
  "Proxmark_find [] = None"
| "Proxmark_find (bus # rest) =
     (case List.find (\<lambda>dev. idVendor dev = vendorID \<and> idProduct dev = productID) (devices bus) of
        Some dev \<Rightarrow> Some dev
      | None \<Rightarrow> Proxmark_find rest)"

text \<open>
  \<open>__init__\<close>. The result is the device whose handle becomes \<open>self.dev\<close>. The
  \<open>try\<close> around \<open>detachKernelDriver(intf[0])\<close> swallows every exception, that of
  \<open>intf[0]\<close> included.
\<close>

definition Proxmark_init ::
  "usb \<Rightarrow> usb_bus list \<Rightarrow> usb_call list \<Rightarrow> (error + usb_device) \<times> usb_call list" where
  "Proxmark_init env busses h =
     (case Proxmark_find busses of
        None \<Rightarrow> (Inl (ProxError ''Cannot find Proxmark''), h)
      | Some dev \<Rightarrow>
         (case usb_invoke env (Open dev) h of
            (Inl e, h1) \<Rightarrow> (Inl e, h1)
          | (Inr _, h1) \<Rightarrow>
             (case index0 (configurations dev) of
                Inl e \<Rightarrow> (Inl e, h1)
              | Inr conf \<Rightarrow>
                 (case index0 (interfaces conf) of
                    Inl e \<Rightarrow> (Inl e, h1)
                  | Inr intf \<Rightarrow>
                     (let h2 = (case index0 intf of
                                  Inl e \<Rightarrow> h1
                                | Inr a \<Rightarrow> snd (usb_invoke env (DetachKernelDriver a) h1))
                      in case usb_invoke env (SetConfiguration conf) h2 of
                           (Inl e, h3) \<Rightarrow> (Inl e, h3)
                         | (Inr _, h3) \<Rightarrow>
                            (case index0 intf of
                               Inl e \<Rightarrow> (Inl e, h3)
                             | Inr a \<Rightarrow>
                                (case usb_invoke env (ClaimInterface a) h3 of
                                   (Inl e, h4) \<Rightarrow> (Inl e, h4)
                                 | (Inr _, h4) \<Rightarrow> (Inr dev, h4))))))))"

text \<open>\<open>_sendcmd\<close>, \<open>_send\<close> and \<open>_recvcmd\<close>.\<close>

definition Proxmark_sendcmd ::
  "byteorder \<Rightarrow> usb \<Rightarrow> USBCommand \<Rightarrow> usb_call list \<Rightarrow> (error + unit) \<times> usb_call list" where
  "Proxmark_sendcmd bo env c h =
     (case USBCommand_str bo c of
        Inl e \<Rightarrow> (Inl e, h)
      | Inr cmdstr \<Rightarrow>
         (case usb_invoke env (BulkWrite 0x01 cmdstr 1000) h of
            (Inl e, h1) \<Rightarrow> (Inl e, h1)
          | (Inr _, h1) \<Rightarrow> (Inr (), h1)))"

definition Proxmark_send ::
  "byteorder \<Rightarrow> usb \<Rightarrow> int \<Rightarrow> usb_call list \<Rightarrow> (error + unit) \<times> usb_call list" where
  "Proxmark_send bo env cmd0 h =
     (case USBCommand_init bo None (Some cmd0) of
        Inl e \<Rightarrow> (Inl e, h)
      | Inr c \<Rightarrow> Proxmark_sendcmd bo env c h)"

definition Proxmark_recvcmd ::
  "byteorder \<Rightarrow> usb \<Rightarrow> usb_call list \<Rightarrow> (error + USBCommand) \<times> usb_call list" where
  "Proxmark_recvcmd bo env h =
     (case usb_invoke env (BulkRead 0x82 64 1000) h of
        (Inl e, h1) \<Rightarrow> (Inl e, h1)
      | (Inr cmd_t, h1) \<Rightarrow>
         (case USBCommand_init bo (Some cmd_t) None of
            Inl e \<Rightarrow> (Inl e, h1)
          | Inr c \<Rightarrow> (Inr c, h1)))"

text \<open>
  \<open>tune\<close>. The chained assignment \<open>lf125.impedance = lf134.impedance = resp.ext3 & 0xffff\<close>
  gives both antennas the one value.
\<close>

definition Proxmark_tune ::
  "byteorder \<Rightarrow> usb \<Rightarrow> usb_call list \<Rightarrow> (error + Antenna \<times> Antenna \<times> Antenna) \<times> usb_call list" where
  "Proxmark_tune bo env h =
     (case Proxmark_send bo env 0x400 h of
        (Inl e, h1) \<Rightarrow> (Inl e, h1)
      | (Inr _, h1) \<Rightarrow>
         (case Proxmark_recvcmd bo env h1 of
            (Inl e, h2) \<Rightarrow> (Inl e, h2)
          | (Inr resp, h2) \<Rightarrow>
             if cmd resp \<noteq> 0x401
             then (Inl (ProxError (''Unexpected response '' @ format_x (cmd resp))), h2)
             else
               (let lf125 = Antenna_init ''125kHz'';
                    lf134 = Antenna_init ''134kHz'';
                    hf = Antenna_init ''13.56MHz'';
                    lf125 = lf125\<lparr>voltage := ext1 resp AND 0xffff\<rparr>;
                    lf134 = lf134\<lparr>voltage := drop_bit 16 (ext1 resp)\<rparr>;
                    z = ext3 resp AND 0xffff;
                    lf125 = lf125\<lparr>impedance := z\<rparr>;
                    lf134 = lf134\<lparr>impedance := z\<rparr>;
                    hf = hf\<lparr>voltage := ext2 resp\<rparr>;
                    hf = hf\<lparr>impedance := drop_bit 16 (ext3 resp)\<rparr>
                in (Inr (lf125, lf134, hf), h2))))"

text \<open>
  \<open>samples\<close>. The \<open>for\<close> loop over \<open>xrange(0, n, 12)\<close> is a recursion over the list of
  offsets; it carries the command object \<open>c\<close>, the list \<open>samples\<close> and the calls so far.
  When \<open>xrange\<close> raises, the loop is not entered.
\<close>

fun samples_loop ::
  "byteorder \<Rightarrow> usb \<Rightarrow> USBCommand \<Rightarrow> int list \<Rightarrow> int list \<Rightarrow> usb_call list
     \<Rightarrow> (error + int list) \<times> usb_call list" where
  "samples_loop bo env c [] samples h = (Inr samples, h)"
| "samples_loop bo env c (i # rest) samples h =
     (case Proxmark_sendcmd bo env (c\<lparr>ext1 := i\<rparr>) h of
        (Inl e, h1) \<Rightarrow> (Inl e, h1)
      | (Inr _, h1) \<Rightarrow>
         (case Proxmark_recvcmd bo env h1 of
            (Inl e, h2) \<Rightarrow> (Inl e, h2)
          | (Inr r, h2) \<Rightarrow>
             if cmd r \<noteq> 0x205
             then (Inl (ProxError (''Unexpected response '' @ format_d (cmd r))), h2)
             else samples_loop bo env (c\<lparr>ext1 := i\<rparr>) rest
                    (samples @ map (\<lambda>sample. ord_byte sample - 128) (buf r)) h2))"

definition Proxmark_samples ::
  "byteorder \<Rightarrow> c_long \<Rightarrow> usb \<Rightarrow> int \<Rightarrow> usb_call list
     \<Rightarrow> (error + int list) \<times> usb_call list" where
  "Proxmark_samples bo w env n h =
     (case USBCommand_init bo None (Some 0x0204) of
        Inl e \<Rightarrow> (Inl e, h)
      | Inr c \<Rightarrow>
         (let n = (if n > 16000 then 16000 else n)
          in case xrange w 0 n 12 of
               Inl e \<Rightarrow> (Inl e, h)
             | Inr offsets \<Rightarrow> samples_loop bo env c offsets [] h))"

text \<open>
  \<open>read_msgs\<close>. The loop \<open>while 1\<close> has no bound of its own: it ends only when
  \<open>_recvcmd\<close> raises, so the model is a partial function and \<open>None\<close> stands for a loop
  that never ends. The bare \<open>except\<close> catches every exception.
\<close>

partial_function (option) read_msgs_loop ::
  "byteorder \<Rightarrow> usb \<Rightarrow> USBCommand list \<Rightarrow> usb_call list \<Rightarrow> (USBCommand list \<times> usb_call list) option" where
  "read_msgs_loop bo env msgs h =
     (case Proxmark_recvcmd bo env h of
        (Inl e, h1) \<Rightarrow> Some (msgs, h1)
      | (Inr c, h1) \<Rightarrow> read_msgs_loop bo env (msgs @ [c]) h1)"

definition Proxmark_read_msgs ::
  "byteorder \<Rightarrow> usb \<Rightarrow> usb_call list \<Rightarrow> (USBCommand list \<times> usb_call list) option" where
  "Proxmark_read_msgs bo env h = read_msgs_loop bo env [] h"

section \<open>Auxiliary notions for the statements\<close>

text \<open>A value that fits an unsigned 32-bit field.\<close>

definition is_u32 :: "int \<Rightarrow> bool" where
  "is_u32 v = (0 \<le> v \<and> v < 2 ^ 32)"

text \<open>
  A device for concrete runs: it accepts every call, answers the successive \<open>bulkRead\<close>
  calls with the successive replies of a script, and raises once the script is used up.
\<close>

fun is_read :: "usb_call \<Rightarrow> bool" where
  "is_read (BulkRead ep n t) = True"
| "is_read c = False"

definition scripted :: "byte list list \<Rightarrow> usb" where
  "scripted replies h c =
     (if is_read c then
        (let k = length (filter is_read h)
         in if k < length replies then Inr (replies ! k) else Inl USBError)
      else Inr [])"

text \<open>
  A tuning reply as it arrives on a little-endian host: opcode \<open>0x401\<close>,
  \<open>ext1 = 0x00140032\<close>, \<open>ext2 = 300\<close>, \<open>ext3 = 0x00100005\<close>, 48 zero bytes.
\<close>

definition tune_reply :: "byte list" where
  "tune_reply = [0x01, 0x04, 0, 0,  0x32, 0x00, 0x14, 0x00,  0x2c, 0x01, 0, 0,  0x05, 0x00, 0x10, 0x00] @ replicate 48 0"

text \<open>
  The notions below serve the statements about \<open>samples\<close>. The command object of the
  chunk request at offset \<open>i\<close>: the object built by \<open>USBCommand(cmd=0x0204)\<close> after
  \<open>c.ext1 = i\<close>.
\<close>

definition chunk_request :: "int \<Rightarrow> USBCommand" where
  "chunk_request i = USBCommand_class\<lparr>cmd := 0x204, ext1 := i\<rparr>"

text \<open>
  A run of chunk exchanges that all succeed: for each offset in turn the request is
  written without an exception and a response is read whose opcode is \<open>0x205\<close>. The
  result is the responses in order and the calls made; it is \<open>None\<close> as soon as one
  exchange fails.
\<close>

fun chunk_exchanges ::
  "byteorder \<Rightarrow> usb \<Rightarrow> usb_call list \<Rightarrow> int list \<Rightarrow> (USBCommand list \<times> usb_call list) option" where
  "chunk_exchanges bo env h [] = Some ([], h)"
| "chunk_exchanges bo env h (i # rest) =
     (case Proxmark_sendcmd bo env (chunk_request i) h of
        (Inl e, h1) \<Rightarrow> None
      | (Inr u, h1) \<Rightarrow>
         (case Proxmark_recvcmd bo env h1 of
            (Inl e, h2) \<Rightarrow> None
          | (Inr r, h2) \<Rightarrow>
             if cmd r = 0x205
             then (case chunk_exchanges bo env h2 rest of
                     None \<Rightarrow> None
                   | Some (rs, h3) \<Rightarrow> Some (r # rs, h3))
             else None))"

text \<open>The byte strings handed to \<open>bulkWrite\<close>, in order.\<close>

fun written :: "usb_call list \<Rightarrow> byte list list" where
  "written [] = []"
| "written (BulkWrite ep s t # h) = s # written h"
| "written (c # h) = written h"

text \<open>The payload bytes of a sequence of responses, each as \<open>byte - 128\<close>.\<close>

definition samples_of :: "USBCommand list \<Rightarrow> int list" where
  "samples_of rs = concat (map (\<lambda>r. map (\<lambda>b. uint b - 128) (buf r)) rs)"

text \<open>A device that accepts every call and answers every \<open>bulkRead\<close> with the same reply.\<close>

definition answering :: "byte list \<Rightarrow> usb" where
  "answering reply h c = (if is_read c then Inr reply else Inr [])"

text \<open>
  Two replies as they arrive on a little-endian host, and the frames they decode to: a
  sample chunk (opcode \<open>0x205\<close>, payload 16 bytes 0, 16 bytes 128, 16 bytes 255) and a reply
  with the unexpected opcode \<open>0x999\<close>.
\<close>

definition chunk_reply :: "byte list" where
  "chunk_reply =
     [0x05, 0x02, 0, 0,  0, 0, 0, 0,  0, 0, 0, 0,  0, 0, 0, 0]
       @ replicate 16 0 @ replicate 16 128 @ replicate 16 255"

definition bad_reply :: "byte list" where
  "bad_reply = [0x99, 0x09, 0, 0,  0, 0, 0, 0,  0, 0, 0, 0,  0, 0, 0, 0] @ replicate 48 0"

definition chunk_response :: USBCommand where
  "chunk_response =
     \<lparr>cmd = 0x205, ext1 = 0, ext2 = 0, ext3 = 0,
      buf = replicate 16 0 @ replicate 16 128 @ replicate 16 255\<rparr>"

definition bad_response :: USBCommand where
  "bad_response = \<lparr>cmd = 0x999, ext1 = 0, ext2 = 0, ext3 = 0, buf = replicate 48 0\<rparr>"

section \<open>The frame codec\<close>

lemma le_value_le_bytes:
  assumes "0 \<le> v" "v < 2 ^ 32"
  shows "le_value (le_bytes v) = v"
proof -
  have d1: "v div 65536 = v div 256 div 256" by (simp add: div_mult2_eq [symmetric])
  have d2: "v div 16777216 = v div 256 div 256 div 256" by (simp add: div_mult2_eq [symmetric])
  have small: "v div 256 div 256 div 256 < 256" using assms by simp
  have nn: "0 \<le> v div 256 div 256 div 256" using assms by simp
  have m: "v div 256 div 256 div 256 mod 256 = v div 256 div 256 div 256"
    using small nn by simp
  have "le_value (le_bytes v) =
      v mod 256 + 256 * (v div 256 mod 256 + 256 * (v div 256 div 256 mod 256 + 256 * (v div 256 div 256 div 256 mod 256)))"
    by (simp add: le_value_def le_bytes_def uint_word_of_int take_bit_eq_mod d1 d2)
  also have "\<dots> = v" unfolding m by simp
  finally show ?thesis .
qed

lemma native_native: "native bo (native bo bs) = bs"
  by (cases bo) (simp_all add: native_def)

lemma length_native: "length (native bo bs) = length bs"
  by (cases bo) (simp_all add: native_def)

lemma pack_I_u32:
  "is_u32 v \<Longrightarrow> pack_I bo v = Inr (native bo (le_bytes v))"
  by (simp add: pack_I_def is_u32_def)

lemma length_le_bytes: "length (le_bytes v) = 4"
  by (simp add: le_bytes_def)

lemma unpack_I_native: "is_u32 v \<Longrightarrow> unpack_I bo (native bo (le_bytes v)) = v"
  by (simp add: unpack_I_def native_native le_value_le_bytes is_u32_def)

lemma struct_round_trip:
  assumes "is_u32 a" "is_u32 b" "is_u32 c" "is_u32 d"
  shows "\<exists>s. struct_pack_IIII bo a b c d = Inr s \<and> length s = 16 \<and>
             struct_unpack_IIII bo s = Inr (a, b, c, d)"
proof -
  let ?p = "\<lambda>v. native bo (le_bytes v)"
  let ?s = "?p a @ ?p b @ ?p c @ ?p d"
  have len: "\<And>v. length (?p v) = 4" by (simp add: length_native length_le_bytes)
  have pk: "struct_pack_IIII bo a b c d = Inr ?s"
    using assms by (simp add: struct_pack_IIII_def pack_I_u32)
  have "struct_unpack_IIII bo ?s = Inr (a, b, c, d)"
    using assms by (simp add: struct_unpack_IIII_def len unpack_I_native)
  with pk len show ?thesis by simp
qed

text \<open>
  Claim C1, as the code has it. \<open>__str__\<close> appends \<open>buf\<close> as it is and \<open>__init__\<close> takes
  \<open>blob[16:]\<close> as it is: for header fields that fit 32 bits and any payload, the encoded
  frame has 16 bytes more than the payload, and decoding it gives back the same header
  fields and the same payload. Nothing pads the payload; the frame has 64 bytes exactly
  when the payload has 48, as the class default has.
\<close>

theorem frame_round_trip:
  assumes "is_u32 (cmd c)" "is_u32 (ext1 c)" "is_u32 (ext2 c)" "is_u32 (ext3 c)"
  shows "\<exists>s. USBCommand_str bo c = Inr s \<and> length s = 16 + length (buf c) \<and>
             USBCommand_init bo (Some s) None = Inr c"
proof -
  from struct_round_trip [OF assms, of bo] obtain hd where
    pk: "struct_pack_IIII bo (cmd c) (ext1 c) (ext2 c) (ext3 c) = Inr hd" and
    len: "length hd = 16" and
    un: "struct_unpack_IIII bo hd = Inr (cmd c, ext1 c, ext2 c, ext3 c)"
    by blast
  have s: "USBCommand_str bo c = Inr (hd @ buf c)"
    by (simp add: USBCommand_str_def pk)
  have ne: "hd @ buf c \<noteq> []" using len by auto
  have "USBCommand_init bo (Some (hd @ buf c)) None = Inr c"
    using ne len un by (simp add: USBCommand_init_def truthy_str_def USBCommand_class_def)
  with s len show ?thesis by simp
qed

theorem frame_round_trip_witness:
  "is_u32 0x204 \<and> is_u32 12 \<and> is_u32 0 \<and>
   (\<exists>s. USBCommand_str LittleEndian \<lparr>cmd = 0x204, ext1 = 12, ext2 = 0, ext3 = 0, buf = replicate 48 0\<rparr> = Inr s \<and>
        length s = 64 \<and>
        USBCommand_init LittleEndian (Some s) None =
          Inr \<lparr>cmd = 0x204, ext1 = 12, ext2 = 0, ext3 = 0, buf = replicate 48 0\<rparr>)"
  using frame_round_trip [of "\<lparr>cmd = 0x204, ext1 = 12, ext2 = 0, ext3 = 0, buf = replicate 48 0\<rparr>" LittleEndian]
  by (simp add: is_u32_def)

text \<open>
  A payload of three bytes is not padded to 48: the frame has 19 bytes and decodes to
  the three bytes.
\<close>

theorem frame_round_trip_counterexample:
  "USBCommand_str LittleEndian \<lparr>cmd = 1, ext1 = 0, ext2 = 0, ext3 = 0, buf = [1, 2, 3]\<rparr>
     = Inr [1, 0, 0, 0, 0, 0, 0, 0, 0, 0, 0, 0, 0, 0, 0, 0, 1, 2, 3] \<and>
   USBCommand_init LittleEndian (Some [1, 0, 0, 0, 0, 0, 0, 0, 0, 0, 0, 0, 0, 0, 0, 0, 1, 2, 3]) None
     = Inr \<lparr>cmd = 1, ext1 = 0, ext2 = 0, ext3 = 0, buf = [1, 2, 3]\<rparr>"
  by (simp add: USBCommand_str_def struct_pack_IIII_def pack_I_def native_def le_bytes_def
      USBCommand_init_def truthy_str_def struct_unpack_IIII_def unpack_I_def le_value_def
      USBCommand_class_def)

lemma decode_short_nonempty:
  assumes "blob \<noteq> []" and "length blob < 16"
  shows "USBCommand_init bo (Some blob) None = Inl StructError"
  using assms by (simp add: USBCommand_init_def truthy_str_def struct_unpack_IIII_def)

text \<open>
  Claim C7 asks that decoding fail on every input shorter than 16 bytes. On an input of
  1 to 15 bytes the code does fail: the slice \<open>blob[:16]\<close> has fewer than 16 bytes,
  \<open>struct.unpack\<close> raises \<open>struct.error\<close> and nothing beyond the input is read (the 8-byte
  input below, and \<open>decode_short_nonempty\<close> in general). On the empty input it does not
  fail: \<open>if blob:\<close> is false for the empty string as it is for \<open>None\<close>, so the input is
  not decoded and the constructor returns the frame of the class attributes. Through
  \<open>_recvcmd\<close>, a read that delivers no byte becomes a frame with opcode 0.
\<close>

theorem decode_empty_input:
  "USBCommand_init bo (Some []) None =
     Inr \<lparr>cmd = 0, ext1 = 0, ext2 = 0, ext3 = 0, buf = replicate 48 0\<rparr> \<and>
   fst (Proxmark_recvcmd bo (answering []) h) =
     Inr \<lparr>cmd = 0, ext1 = 0, ext2 = 0, ext3 = 0, buf = replicate 48 0\<rparr> \<and>
   USBCommand_init bo (Some [1, 2, 3, 4, 5, 6, 7, 8]) None = Inl StructError"
proof -
  have e: "USBCommand_init bo (Some []) None =
     Inr \<lparr>cmd = 0, ext1 = 0, ext2 = 0, ext3 = 0, buf = replicate 48 0\<rparr>"
    by (simp add: USBCommand_init_def truthy_str_def truthy_int_def USBCommand_class_def)
  have r: "fst (Proxmark_recvcmd bo (answering []) h) =
     Inr \<lparr>cmd = 0, ext1 = 0, ext2 = 0, ext3 = 0, buf = replicate 48 0\<rparr>"
    by (simp add: Proxmark_recvcmd_def usb_invoke_def answering_def e)
  have s: "USBCommand_init bo (Some [1, 2, 3, 4, 5, 6, 7, 8]) None = Inl StructError"
    by (rule decode_short_nonempty) simp_all
  from e r s show ?thesis by simp
qed

section \<open>Opening the session\<close>

lemma Proxmark_find_None:
  "(Proxmark_find busses = None) =
     (\<forall>bus \<in> set busses. \<forall>dev \<in> set (devices bus). \<not> (idVendor dev = vendorID \<and> idProduct dev = productID))"
proof (induction busses)
  case Nil
  show ?case by simp
next
  case (Cons bus rest)
  let ?P = "\<lambda>dev. idVendor dev = vendorID \<and> idProduct dev = productID"
  show ?case
  proof (cases "List.find ?P (devices bus)")
    case None
    then have "\<forall>dev \<in> set (devices bus). \<not> ?P dev" by (simp add: find_None_iff)
    with None Cons show ?thesis by simp
  next
    case (Some d)
    then obtain i where "i < length (devices bus)" "?P (devices bus ! i)"
      unfolding find_Some_iff by blast
    then have "\<exists>dev \<in> set (devices bus). ?P dev" using nth_mem by blast
    with Some show ?thesis by auto
  qed
qed

text \<open>
  Claim C8. When no enumerated device has vendor id \<open>0x9ac4\<close> and product id \<open>0x4b8f\<close>,
  \<open>__init__\<close> raises \<open>ProxError("Cannot find Proxmark")\<close>, the driver's device-not-found
  failure, and has made no call on the USB library: the calls made are those made before,
  so no handle was opened and no interface claimed.
\<close>

theorem init_no_device:
  assumes "\<forall>bus \<in> set busses. \<forall>dev \<in> set (devices bus).
             \<not> (idVendor dev = 0x9ac4 \<and> idProduct dev = 0x4b8f)"
  shows "Proxmark_init env busses h = (Inl (ProxError ''Cannot find Proxmark''), h)"
proof -
  have "Proxmark_find busses = None"
    using assms by (simp add: Proxmark_find_None vendorID_def productID_def)
  then show ?thesis by (simp add: Proxmark_init_def)
qed

theorem init_no_device_witness:
  "Proxmark_init (scripted [])
     [\<lparr>devices = [\<lparr>idVendor = 0x9ac4, idProduct = 0x0001, configurations = []\<rparr>]\<rparr>] []
     = (Inl (ProxError ''Cannot find Proxmark''), [])"
  using init_no_device [of "[\<lparr>devices = [\<lparr>idVendor = 0x9ac4, idProduct = 0x0001, configurations = []\<rparr>]\<rparr>]" "scripted []" "[]"]
  by simp

section \<open>Sample download and tuning\<close>

lemma USBCommand_init_cmd:
  "n \<noteq> 0 \<Longrightarrow> USBCommand_init bo None (Some n) = Inr (USBCommand_class\<lparr>cmd := n\<rparr>)"
  by (simp add: USBCommand_init_def truthy_str_def truthy_int_def)

text \<open>
  Claim C10, as the code has it. For a count \<open>n \<le> 0\<close> \<open>samples\<close> makes no call on
  the device: the calls made are those made before, so there was no chunk request, no
  write and no read. When the count is a plain integer, \<open>-sys.maxint - 1 \<le> n\<close>, the range
  \<open>xrange(0, n, 12)\<close> is empty and \<open>samples\<close> returns the empty list.
\<close>

theorem samples_nonpositive:
  assumes "n \<le> 0"
  shows "snd (Proxmark_samples bo w env n h) = h \<and>
         (- sys_maxint w - 1 \<le> n \<longrightarrow> Proxmark_samples bo w env n h = (Inr [], h))"
proof -
  have items: "xrange_items 0 n 12 = []"
    using assms by (simp add: xrange_items.simps [of 0 n 12])
  have m: "0 \<le> sys_maxint w" by (cases w) (simp_all add: sys_maxint_def)
  have c: "(if n > 16000 then 16000 else n) = n" using assms by simp
  have x: "xrange w 0 n 12 = (if - sys_maxint w - 1 \<le> n then Inr [] else Inl OverflowError)"
    using assms m by (auto simp: xrange_def fits_long_def items sys_maxint_def split: c_long.splits)
  show ?thesis
    by (simp add: Proxmark_samples_def USBCommand_init_cmd Let_def c x)
qed

theorem samples_nonpositive_witness:
  "Proxmark_samples LittleEndian Long64 (scripted []) (- 5) [] = (Inr [], [])"
  using samples_nonpositive [of "- 5" LittleEndian Long64 "scripted []" "[]"]
  by (simp add: sys_maxint_def)

text \<open>
  A count below the range of a C long: on a host with 64-bit longs,
  \<open>xrange(0, -2**70, 12)\<close> raises \<open>OverflowError\<close> and \<open>samples\<close> returns no list.
\<close>

theorem samples_nonpositive_counterexample:
  "Proxmark_samples LittleEndian Long64 (scripted []) (- (2 ^ 70)) [] = (Inl OverflowError, [])"
  by (simp add: Proxmark_samples_def USBCommand_init_cmd Let_def xrange_def fits_long_def
      sys_maxint_def)

text \<open>
  Claim C3. When the tune request is sent and the response has opcode \<open>0x401\<close>, \<open>tune\<close>
  returns the three antennas in the order 125kHz, 134kHz, 13.56MHz: the 125kHz voltage is
  \<open>ext1 & 0xFFFF\<close>, the 134kHz voltage \<open>ext1 >> 16\<close>, the 13.56MHz voltage \<open>ext2\<close>, the
  impedance of both low-frequency antennas \<open>ext3 & 0xFFFF\<close> and the 13.56MHz impedance
  \<open>ext3 >> 16\<close>. For \<open>ext1 = 0x00140032\<close>, \<open>ext2 = 300\<close>, \<open>ext3 = 0x00100005\<close> the
  readings are 50 mV / 5 ohms, 20 mV / 5 ohms and 300 mV / 16 ohms.
\<close>

theorem tune_decode:
  assumes "Proxmark_send bo env 0x400 h = (Inr u, h1)"
      and "Proxmark_recvcmd bo env h1 = (Inr resp, h2)"
      and "cmd resp = 0x401"
  shows "Proxmark_tune bo env h =
           (Inr (\<lparr>name = ''125kHz'', voltage = ext1 resp AND 0xFFFF, impedance = ext3 resp AND 0xFFFF\<rparr>,
                 \<lparr>name = ''134kHz'', voltage = drop_bit 16 (ext1 resp), impedance = ext3 resp AND 0xFFFF\<rparr>,
                 \<lparr>name = ''13.56MHz'', voltage = ext2 resp, impedance = drop_bit 16 (ext3 resp)\<rparr>), h2)
         \<and> (ext1 resp = 0x00140032 \<and> ext2 resp = 300 \<and> ext3 resp = 0x00100005 \<longrightarrow>
              Proxmark_tune bo env h =
                (Inr (\<lparr>name = ''125kHz'', voltage = 50, impedance = 5\<rparr>,
                      \<lparr>name = ''134kHz'', voltage = 20, impedance = 5\<rparr>,
                      \<lparr>name = ''13.56MHz'', voltage = 300, impedance = 16\<rparr>), h2))"
proof -
  have gen: "Proxmark_tune bo env h =
           (Inr (\<lparr>name = ''125kHz'', voltage = ext1 resp AND 0xFFFF, impedance = ext3 resp AND 0xFFFF\<rparr>,
                 \<lparr>name = ''134kHz'', voltage = drop_bit 16 (ext1 resp), impedance = ext3 resp AND 0xFFFF\<rparr>,
                 \<lparr>name = ''13.56MHz'', voltage = ext2 resp, impedance = drop_bit 16 (ext3 resp)\<rparr>), h2)"
    using assms by (simp add: Proxmark_tune_def Antenna_init_def Antenna_class_def Let_def)
  show ?thesis
  proof (intro conjI impI)
    show "Proxmark_tune bo env h =
           (Inr (\<lparr>name = ''125kHz'', voltage = ext1 resp AND 0xFFFF, impedance = ext3 resp AND 0xFFFF\<rparr>,
                 \<lparr>name = ''134kHz'', voltage = drop_bit 16 (ext1 resp), impedance = ext3 resp AND 0xFFFF\<rparr>,
                 \<lparr>name = ''13.56MHz'', voltage = ext2 resp, impedance = drop_bit 16 (ext3 resp)\<rparr>), h2)"
      by (rule gen)
  next
    assume "ext1 resp = 0x00140032 \<and> ext2 resp = 300 \<and> ext3 resp = 0x00100005"
    then show "Proxmark_tune bo env h =
                (Inr (\<lparr>name = ''125kHz'', voltage = 50, impedance = 5\<rparr>,
                      \<lparr>name = ''134kHz'', voltage = 20, impedance = 5\<rparr>,
                      \<lparr>name = ''13.56MHz'', voltage = 300, impedance = 16\<rparr>), h2)"
      by (simp add: gen)
  qed
qed

lemma tune_reply_decode:
  "USBCommand_init LittleEndian (Some tune_reply) None =
     Inr \<lparr>cmd = 0x401, ext1 = 0x00140032, ext2 = 300, ext3 = 0x00100005, buf = replicate 48 0\<rparr>"
  by (simp add: tune_reply_def USBCommand_init_def truthy_str_def struct_unpack_IIII_def
      unpack_I_def native_def le_value_def USBCommand_class_def)

lemma send_scripted:
  "is_u32 c \<Longrightarrow> c \<noteq> 0 \<Longrightarrow>
   Proxmark_send bo (scripted rs) c h = (Inr (), snd (Proxmark_send bo (scripted rs) c h))"
  by (simp add: Proxmark_send_def USBCommand_init_cmd Proxmark_sendcmd_def USBCommand_str_def
      struct_pack_IIII_def pack_I_def is_u32_def USBCommand_class_def usb_invoke_def scripted_def)

lemma filter_read_send:
  "is_u32 c \<Longrightarrow> c \<noteq> 0 \<Longrightarrow>
   filter is_read (snd (Proxmark_send bo (scripted rs) c h)) = filter is_read h"
  by (simp add: Proxmark_send_def USBCommand_init_cmd Proxmark_sendcmd_def USBCommand_str_def
      struct_pack_IIII_def pack_I_def is_u32_def USBCommand_class_def usb_invoke_def scripted_def)

theorem tune_decode_witness:
  "Proxmark_tune LittleEndian (scripted [tune_reply]) [] =
     (Inr (\<lparr>name = ''125kHz'', voltage = 50, impedance = 5\<rparr>,
           \<lparr>name = ''134kHz'', voltage = 20, impedance = 5\<rparr>,
           \<lparr>name = ''13.56MHz'', voltage = 300, impedance = 16\<rparr>),
      snd (Proxmark_send LittleEndian (scripted [tune_reply]) 0x400 []) @ [BulkRead 0x82 64 1000])"
proof -
  let ?env = "scripted [tune_reply]"
  let ?h1 = "snd (Proxmark_send LittleEndian ?env 0x400 [])"
  let ?resp = "\<lparr>cmd = 0x401, ext1 = 0x00140032, ext2 = 300, ext3 = 0x00100005, buf = replicate 48 0\<rparr>"
  have a: "Proxmark_send LittleEndian ?env 0x400 [] = (Inr (), ?h1)"
    by (rule send_scripted) (simp_all add: is_u32_def)
  have f: "filter is_read ?h1 = []"
    using filter_read_send [of "0x400" LittleEndian "[tune_reply]" "[]"] by (simp add: is_u32_def)
  have b: "Proxmark_recvcmd LittleEndian ?env ?h1 = (Inr ?resp, ?h1 @ [BulkRead 0x82 64 1000])"
    by (simp add: Proxmark_recvcmd_def usb_invoke_def scripted_def f tune_reply_decode)
  have c: "cmd ?resp = 0x401" by simp
  from tune_decode [OF a b c] show ?thesis by simp
qed

subsection \<open>The chunk offsets\<close>

lemma xrange_12:
  "xrange_items a n 12 = map (\<lambda>k. a + 12 * int k) [0..<nat ((n - a + 11) div 12)]"
proof (induction a n "12::int" rule: xrange_items.induct)
  case (1 start stop)
  show ?case
  proof (cases "start < stop")
    case False
    then have "nat ((stop - start + 11) div 12) = 0" by simp
    with False show ?thesis by (simp add: xrange_items.simps [of start stop 12])
  next
    case True
    then have IH: "xrange_items (start + 12) stop 12 =
        map (\<lambda>k. start + 12 + 12 * int k) [0..<nat ((stop - (start + 12) + 11) div 12)]"
      using 1 by simp
    have n: "nat ((stop - start + 11) div 12) = Suc (nat ((stop - (start + 12) + 11) div 12))"
      using True by (simp add: Suc_nat_eq_nat_zadd1) 
    have "map (\<lambda>k. start + 12 * int k) [0..<Suc (nat ((stop - (start + 12) + 11) div 12))] =
          start # map (\<lambda>k. start + 12 + 12 * int k) [0..<nat ((stop - (start + 12) + 11) div 12)]"
      by (simp add: upt_conv_Cons map_Suc_upt [symmetric] del: upt_Suc) 
    with IH n True show ?thesis by (simp add: xrange_items.simps [of start stop 12])
  qed
qed

lemma xrange_0_12: "xrange_items 0 n 12 = map (\<lambda>k. 12 * int k) [0..<nat ((n + 11) div 12)]"
  using xrange_12 [of 0 n] by simp

lemma length_xrange_0_12: "length (xrange_items 0 n 12) = nat ((n + 11) div 12)"
  by (simp add: xrange_0_12)

lemma ceiling_12: "\<lceil>real_of_int n / 12\<rceil> = (n + 11) div 12"
proof -
  have "\<lceil>real_of_int n / real_of_int 12\<rceil> = - (- n div 12)"
    by (rule ceiling_divide_eq_div)
  then show ?thesis by simp
qed

subsection \<open>The download loop\<close>

lemma chunk_request_ext1: "(chunk_request j)\<lparr>ext1 := i\<rparr> = chunk_request i"
  by (simp add: chunk_request_def)

lemma recvcmd_history: "snd (Proxmark_recvcmd bo env h) = h @ [BulkRead 0x82 64 1000]"
  by (simp add: Proxmark_recvcmd_def usb_invoke_def split: sum.splits)

lemma samples_loop_append:
  "chunk_exchanges bo env h pre = Some (rs, hk) \<Longrightarrow>
   samples_loop bo env (chunk_request j) (pre @ rest) acc h =
     samples_loop bo env (chunk_request (if pre = [] then j else last pre)) rest (acc @ samples_of rs) hk"
proof (induction pre arbitrary: h rs acc j)
  case Nil
  then show ?case by (simp add: samples_of_def)
next
  case (Cons i pre)
  from Cons.prems obtain u h1 where s: "Proxmark_sendcmd bo env (chunk_request i) h = (Inr u, h1)"
    by (auto split: prod.splits sum.splits)
  from Cons.prems s obtain r h2 where r: "Proxmark_recvcmd bo env h1 = (Inr r, h2)"
    by (auto split: prod.splits sum.splits)
  from Cons.prems s r have c: "cmd r = 0x205"
    by (auto split: if_splits)
  from Cons.prems s r c obtain rs' where
    rest: "chunk_exchanges bo env h2 pre = Some (rs', hk)" and rs: "rs = r # rs'"
    by (auto split: option.splits)
  have "samples_loop bo env (chunk_request j) ((i # pre) @ rest) acc h =
        samples_loop bo env (chunk_request i) (pre @ rest) (acc @ map (\<lambda>b. uint b - 128) (buf r)) h2"
    using s r c by (simp add: chunk_request_ext1 ord_byte_def)
  also have "\<dots> = samples_loop bo env (chunk_request (if pre = [] then i else last pre)) rest
                     ((acc @ map (\<lambda>b. uint b - 128) (buf r)) @ samples_of rs') hk"
    by (rule Cons.IH [OF rest])
  finally show ?case by (simp add: rs samples_of_def)
qed

lemma samples_loop_run:
  assumes "chunk_exchanges bo env h offs = Some (rs, hk)"
  shows "samples_loop bo env (chunk_request j) offs acc h = (Inr (acc @ samples_of rs), hk)"
  using samples_loop_append [OF assms, of j "[]" acc] by simp

lemma sys_maxint_ge: "2 ^ 31 - 1 \<le> sys_maxint w"
  by (cases w) (simp_all add: sys_maxint_def)

lemma xrange_driver:
  assumes "- sys_maxint w - 1 \<le> n" and "n \<le> 16000"
  shows "xrange w 0 n 12 = Inr (xrange_items 0 n 12)"
proof -
  have m: "2 ^ 31 - 1 \<le> sys_maxint w" by (rule sys_maxint_ge)
  have "(n + 11) div 12 \<le> 1334" using assms(2) by simp
  then have "int (length (xrange_items 0 n 12)) \<le> 1334"
    by (simp add: length_xrange_0_12)
  with m have len: "\<not> sys_maxint w < int (length (xrange_items 0 n 12))" by simp
  have "fits_long w 0" "fits_long w n" "fits_long w 12"
    using assms m by (simp_all add: fits_long_def)
  with len show ?thesis by (simp add: xrange_def)
qed

lemma xrange_raises:
  assumes "n < - sys_maxint w - 1"
  shows "xrange w 0 n 12 = Inl OverflowError"
  using assms by (simp add: xrange_def fits_long_def)

lemma samples_start:
  assumes "- sys_maxint w - 1 \<le> n"
  shows "Proxmark_samples bo w env n h =
     samples_loop bo env (chunk_request 0) (xrange_items 0 (min n 16000) 12) [] h"
proof -
  have i: "USBCommand_init bo None (Some 0x0204) = Inr (chunk_request 0)"
    by (simp add: USBCommand_init_cmd chunk_request_def USBCommand_class_def)
  have c: "(if n > 16000 then 16000 else n) = min n 16000" by simp
  have "- sys_maxint w - 1 \<le> min n 16000"
    using assms sys_maxint_ge [of w] by simp
  then have x: "xrange w 0 (min n 16000) 12 = Inr (xrange_items 0 (min n 16000) 12)"
    by (rule xrange_driver) simp
  show ?thesis
    unfolding Proxmark_samples_def i c by (simp add: Let_def x del: min_less_iff_conj)
qed

lemma samples_Inr_fits:
  assumes "Proxmark_samples bo w env n h = (Inr xs, hk)"
  shows "- sys_maxint w - 1 \<le> n"
proof (rule ccontr)
  assume "\<not> - sys_maxint w - 1 \<le> n"
  then have lt: "n < - sys_maxint w - 1" by simp
  have m: "2 ^ 31 - 1 \<le> sys_maxint w" by (rule sys_maxint_ge)
  from lt m have c: "(if n > 16000 then 16000 else n) = n" by simp
  have "Proxmark_samples bo w env n h = (Inl OverflowError, h)"
    unfolding Proxmark_samples_def c
    by (simp add: USBCommand_init_cmd Let_def xrange_raises [OF lt])
  with assms show False by simp
qed

lemma samples_run:
  assumes "- sys_maxint w - 1 \<le> n"
      and "chunk_exchanges bo env h (xrange_items 0 (min n 16000) 12) = Some (rs, hk)"
  shows "Proxmark_samples bo w env n h = (Inr (samples_of rs), hk)"
  using samples_loop_run [OF assms(2), of 0 "[]"] by (simp add: samples_start [OF assms(1)])

lemma length_chunk_exchanges:
  "chunk_exchanges bo env h offs = Some (rs, hk) \<Longrightarrow> length rs = length offs"
  by (induction offs arbitrary: h rs) (auto split: prod.splits sum.splits if_splits option.splits)

lemma length_samples_of:
  "\<forall>r \<in> set rs. length (buf r) = 48 \<Longrightarrow> length (samples_of rs) = length rs * 48"
  by (induction rs) (simp_all add: samples_of_def)

lemma samples_of_range: "x \<in> set (samples_of rs) \<Longrightarrow> - 128 \<le> x \<and> x \<le> 127"
proof -
  assume "x \<in> set (samples_of rs)"
  then obtain b :: byte where x: "x = uint b - 128" by (auto simp: samples_of_def)
  have "0 \<le> uint b" "uint b < 256" using uint_lt2p [of b] by simp_all
  with x show ?thesis by simp
qed

text \<open>
  Claim C2. For a count \<open>0 < n \<le> 16000\<close>, when every chunk request of the download is
  answered and every response carries a 48-byte payload, \<open>samples\<close> returns a list of
  exactly \<open>ceil(n / 12) * 48\<close> samples: the whole payload of each response is appended,
  whatever the step of 12.
\<close>

theorem samples_length:
  assumes "0 < n" and "n \<le> 16000"
      and "chunk_exchanges bo env h (xrange_items 0 n 12) = Some (rs, hk)"
      and "\<forall>r \<in> set rs. length (buf r) = 48"
  shows "\<exists>xs. Proxmark_samples bo w env n h = (Inr xs, hk) \<and>
              int (length xs) = \<lceil>real_of_int n / 12\<rceil> * 48"
proof -
  have m: "min n 16000 = n" using assms(2) by simp
  have f: "- sys_maxint w - 1 \<le> n"
    using assms(1) sys_maxint_ge [of w] by simp
  have run: "Proxmark_samples bo w env n h = (Inr (samples_of rs), hk)"
    using assms(3) by (intro samples_run [OF f]) (simp add: m)
  have "length rs = nat ((n + 11) div 12)"
    using length_chunk_exchanges [OF assms(3)] by (simp add: length_xrange_0_12)
  then have "int (length (samples_of rs)) = ((n + 11) div 12) * 48"
    using assms(1) by (simp add: length_samples_of [OF assms(4)])
  with run show ?thesis by (simp add: ceiling_12)
qed

lemma samples_loop_Inr:
  "samples_loop bo env (chunk_request j) offs acc h = (Inr xs, hk) \<Longrightarrow>
   \<exists>rs. chunk_exchanges bo env h offs = Some (rs, hk) \<and> xs = acc @ samples_of rs"
proof (induction offs arbitrary: j acc h)
  case Nil
  then show ?case by (simp add: samples_of_def)
next
  case (Cons i offs)
  from Cons.prems obtain u h1 where s: "Proxmark_sendcmd bo env (chunk_request i) h = (Inr u, h1)"
    by (auto simp: chunk_request_ext1 split: prod.splits sum.splits)
  from Cons.prems s obtain r h2 where r: "Proxmark_recvcmd bo env h1 = (Inr r, h2)"
    by (auto simp: chunk_request_ext1 split: prod.splits sum.splits)
  from Cons.prems s r have c: "cmd r = 0x205"
    by (auto simp: chunk_request_ext1 split: if_splits)
  from Cons.prems s r c have
    "samples_loop bo env (chunk_request i) offs (acc @ map (\<lambda>b. uint b - 128) (buf r)) h2 = (Inr xs, hk)"
    by (simp add: chunk_request_ext1 ord_byte_def)
  from Cons.IH [OF this] obtain rs where
    "chunk_exchanges bo env h2 offs = Some (rs, hk)"
    "xs = (acc @ map (\<lambda>b. uint b - 128) (buf r)) @ samples_of rs"
    by blast
  with s r c show ?case by (simp add: samples_of_def)
qed

text \<open>
  Claim C5. Whenever \<open>samples\<close> returns, the list returned is made of the payload bytes
  of the responses received, in order, each unsigned byte \<open>b\<close> as \<open>b - 128\<close>; every sample
  lies in \<open>-128 .. 127\<close>; byte 0 gives -128, byte 128 gives 0 and byte 255 gives 127.
\<close>

theorem sample_byte_mapping:
  assumes "Proxmark_samples bo w env n h = (Inr xs, hk)"
  shows "(\<exists>rs. chunk_exchanges bo env h (xrange_items 0 (min n 16000) 12) = Some (rs, hk) \<and>
               xs = concat (map (\<lambda>r. map (\<lambda>b. uint b - 128) (buf r)) rs)) \<and>
         (\<forall>x \<in> set xs. - 128 \<le> x \<and> x \<le> 127) \<and>
         ord_byte 0 - 128 = - 128 \<and> ord_byte 128 - 128 = 0 \<and> ord_byte 255 - 128 = 127"
proof -
  from assms have "samples_loop bo env (chunk_request 0) (xrange_items 0 (min n 16000) 12) [] h = (Inr xs, hk)"
    by (simp add: samples_start [OF samples_Inr_fits [OF assms]])
  from samples_loop_Inr [OF this] obtain rs where
    rs: "chunk_exchanges bo env h (xrange_items 0 (min n 16000) 12) = Some (rs, hk)" and
    xs: "xs = samples_of rs"
    by auto
  have "\<forall>x \<in> set xs. - 128 \<le> x \<and> x \<le> 127"
    using samples_of_range [of _ rs] by (simp add: xs)
  moreover have "ord_byte 0 - 128 = - 128 \<and> ord_byte 128 - 128 = 0 \<and> ord_byte 255 - 128 = 127"
    by (simp add: ord_byte_def)
  ultimately show ?thesis using rs xs by (simp add: samples_of_def)
qed

lemma pack_I_Inr: "pack_I bo v = Inr s \<Longrightarrow> is_u32 v"
  by (simp add: pack_I_def is_u32_def split: if_splits)

lemma USBCommand_str_init:
  assumes "USBCommand_str bo c = Inr s"
  shows "USBCommand_init bo (Some s) None = Inr c \<and> length s = 16 + length (buf c)"
proof -
  from assms obtain hd where
    pk: "struct_pack_IIII bo (cmd c) (ext1 c) (ext2 c) (ext3 c) = Inr hd" and s: "s = hd @ buf c"
    by (auto simp: USBCommand_str_def split: sum.splits)
  from pk have u: "is_u32 (cmd c)" "is_u32 (ext1 c)" "is_u32 (ext2 c)" "is_u32 (ext3 c)"
    by (auto simp: struct_pack_IIII_def split: sum.splits dest: pack_I_Inr)
  from struct_round_trip [OF u, of bo] pk have
    len: "length hd = 16" and un: "struct_unpack_IIII bo hd = Inr (cmd c, ext1 c, ext2 c, ext3 c)"
    by auto
  have ne: "hd @ buf c \<noteq> []" using len by auto
  have "USBCommand_init bo (Some (hd @ buf c)) None = Inr c"
    using ne len un by (simp add: USBCommand_init_def truthy_str_def USBCommand_class_def)
  with s len show ?thesis by simp
qed

lemma sendcmd_Inr:
  "Proxmark_sendcmd bo env c h = (Inr u, h1) \<Longrightarrow>
   \<exists>s. USBCommand_str bo c = Inr s \<and> h1 = h @ [BulkWrite 0x01 s 1000]"
  by (auto simp: Proxmark_sendcmd_def usb_invoke_def split: sum.splits)

lemma recvcmd_Inr:
  "Proxmark_recvcmd bo env h = (Inr r, h1) \<Longrightarrow> h1 = h @ [BulkRead 0x82 64 1000]"
  using recvcmd_history [of bo env h] by simp

lemma written_append: "written (h @ t) = written h @ written t"
  by (induction h rule: written.induct) simp_all

lemma chunk_exchanges_history:
  "chunk_exchanges bo env h offs = Some (rs, hk) \<Longrightarrow>
   \<exists>t. hk = h @ t \<and>
       map (\<lambda>s. USBCommand_init bo (Some s) None) (written t) = map (\<lambda>i. Inr (chunk_request i)) offs"
proof (induction offs arbitrary: h rs)
  case Nil
  then show ?case by simp
next
  case (Cons i offs)
  from Cons.prems obtain u h1 where s: "Proxmark_sendcmd bo env (chunk_request i) h = (Inr u, h1)"
    by (auto split: prod.splits sum.splits)
  from Cons.prems s obtain r h2 where r: "Proxmark_recvcmd bo env h1 = (Inr r, h2)"
    by (auto split: prod.splits sum.splits)
  from Cons.prems s r obtain rs' where rest: "chunk_exchanges bo env h2 offs = Some (rs', hk)"
    by (auto split: if_splits option.splits)
  from sendcmd_Inr [OF s] obtain fr where
    fr: "USBCommand_str bo (chunk_request i) = Inr fr" and h1: "h1 = h @ [BulkWrite 0x01 fr 1000]"
    by blast
  have dec: "USBCommand_init bo (Some fr) None = Inr (chunk_request i)"
    using USBCommand_str_init [OF fr] by simp
  have h2: "h2 = h1 @ [BulkRead 0x82 64 1000]" by (rule recvcmd_Inr [OF r])
  from Cons.IH [OF rest] obtain t where
    t: "hk = h2 @ t"
       "map (\<lambda>s. USBCommand_init bo (Some s) None) (written t) = map (\<lambda>i. Inr (chunk_request i)) offs"
    by blast
  let ?t = "BulkWrite 0x01 fr 1000 # BulkRead 0x82 64 1000 # t"
  have "hk = h @ ?t" using t(1) h1 h2 by simp
  moreover have "map (\<lambda>s. USBCommand_init bo (Some s) None) (written ?t) =
                 map (\<lambda>i. Inr (chunk_request i)) (i # offs)"
    using t(2) dec by simp
  ultimately show ?case by blast
qed

text \<open>
  Claim C4. A count above 16000 is clamped: \<open>samples(n)\<close> does what \<open>samples(16000)\<close>
  does. When the chunk requests are answered, the download (that of \<open>n = 20000\<close>, say)
  writes exactly 1334 frames, and they decode, in order, to the commands with opcode
  \<open>0x204\<close> and \<open>ext1 = 0, 12, 24, ..., 15996\<close>, that is \<open>12 * k\<close> for \<open>k < 1334\<close>.
\<close>

theorem samples_clamp_chunks:
  assumes "16000 < n"
      and "chunk_exchanges bo env h (xrange_items 0 16000 12) = Some (rs, hk)"
  shows "Proxmark_samples bo w env n h = Proxmark_samples bo w env 16000 h \<and>
         (\<exists>xs t. Proxmark_samples bo w env n h = (Inr xs, h @ t) \<and>
                 length (written t) = 1334 \<and>
                 map (\<lambda>s. USBCommand_init bo (Some s) None) (written t) =
                   map (\<lambda>k. Inr (USBCommand_class\<lparr>cmd := 0x204, ext1 := 12 * int k\<rparr>)) [0..<1334])"
proof -
  have m: "min n 16000 = 16000" using assms(1) by simp
  have f: "- sys_maxint w - 1 \<le> n" "- sys_maxint w - 1 \<le> 16000"
    using assms(1) sys_maxint_ge [of w] by simp_all
  have clamp: "Proxmark_samples bo w env n h = Proxmark_samples bo w env 16000 h"
    by (simp add: samples_start [OF f(1)] samples_start [OF f(2)] m)
  have run: "Proxmark_samples bo w env n h = (Inr (samples_of rs), hk)"
    using assms(2) by (intro samples_run [OF f(1)]) (simp add: m)
  from chunk_exchanges_history [OF assms(2)] obtain t where
    t: "hk = h @ t"
       "map (\<lambda>s. USBCommand_init bo (Some s) None) (written t) =
          map (\<lambda>i. Inr (chunk_request i)) (xrange_items 0 16000 12)"
    by blast
  have offs: "xrange_items 0 16000 12 = map (\<lambda>k. 12 * int k) [0..<1334]"
    by (simp add: xrange_0_12)
  have dec: "map (\<lambda>s. USBCommand_init bo (Some s) None) (written t) =
          map (\<lambda>k. Inr (USBCommand_class\<lparr>cmd := 0x204, ext1 := 12 * int k\<rparr>)) [0..<1334]"
    using t(2) unfolding offs by (simp add: chunk_request_def comp_def)
  then have "length (map (\<lambda>s. USBCommand_init bo (Some s) None) (written t)) = 1334"
    by simp
  then have len: "length (written t) = 1334" by simp
  from clamp run t(1) dec len show ?thesis by blast
qed

section \<open>The opcode check\<close>

lemma tune_mismatch:
  assumes "Proxmark_send bo env 0x400 h = (Inr u, h1)"
      and "Proxmark_recvcmd bo env h1 = (Inr resp, h2)"
      and "cmd resp \<noteq> 0x401"
  shows "Proxmark_tune bo env h =
           (Inl (ProxError (''Unexpected response '' @ format_x (cmd resp))), h2)"
  using assms by (simp add: Proxmark_tune_def)

lemma samples_mismatch:
  assumes "xrange_items 0 (min n 16000) 12 = pre @ i # post"
      and "chunk_exchanges bo env h pre = Some (rs, hk)"
      and "Proxmark_sendcmd bo env (chunk_request i) hk = (Inr u, hk1)"
      and "Proxmark_recvcmd bo env hk1 = (Inr r, hk2)"
      and "cmd r \<noteq> 0x205"
  shows "Proxmark_samples bo w env n h =
           (Inl (ProxError (''Unexpected response '' @ format_d (cmd r))), hk2)"
proof -
  have "0 < min n 16000"
  proof (rule ccontr)
    assume "\<not> 0 < min n 16000"
    then have "xrange_items 0 (min n 16000) 12 = []"
      by (subst xrange_items.simps) simp
    with assms(1) show False by simp
  qed
  then have f: "- sys_maxint w - 1 \<le> n"
    using sys_maxint_ge [of w] by simp
  have "Proxmark_samples bo w env n h =
        samples_loop bo env (chunk_request 0) (pre @ i # post) [] h"
    by (simp add: samples_start [OF f] assms(1))
  also have "\<dots> = samples_loop bo env (chunk_request (if pre = [] then 0 else last pre))
                      (i # post) ([] @ samples_of rs) hk"
    by (rule samples_loop_append [OF assms(2)])
  also have "\<dots> = (Inl (ProxError (''Unexpected response '' @ format_d (cmd r))), hk2)"
    using assms(3-5) by (simp add: chunk_request_ext1)
  finally show ?thesis .
qed

lemma format_x_999: "format_x 0x999 = ''999''"
  by (simp add: format_x_def hexdigits.simps)

lemma format_d_999: "format_d 0x999 = ''2457''"
  by (simp add: format_d_def decdigits.simps)

lemma hexdigits_nonempty: "hexdigits n \<noteq> []"
  by (subst hexdigits.simps) simp

lemma hexchar_inj:
  assumes "i < 16" "j < 16" "''0123456789abcdef'' ! i = ''0123456789abcdef'' ! j"
  shows "i = j"
proof -
  have "distinct ''0123456789abcdef''" by simp
  moreover have "i < length ''0123456789abcdef''" "j < length ''0123456789abcdef''"
    using assms(1,2) by simp_all
  ultimately show ?thesis using assms(3) by (simp only: nth_eq_iff_index_eq)
qed

lemma hexdigits_inj: "hexdigits m = hexdigits n \<Longrightarrow> m = n"
proof (induction m arbitrary: n rule: hexdigits.induct)
  case (1 m)
  show ?case
  proof (cases "m < 16")
    case True
    show ?thesis
    proof (cases "n < 16")
      case n: True
      from "1.prems" True n have "''0123456789abcdef'' ! m = ''0123456789abcdef'' ! n"
        by (simp add: hexdigits.simps [of m] hexdigits.simps [of n])
      then show ?thesis using True n by (intro hexchar_inj)
    next
      case False
      then have "length (hexdigits n) \<ge> 2"
        using hexdigits_nonempty [of "n div 16"]
        by (cases "hexdigits (n div 16)") (simp_all add: hexdigits.simps [of n])
      moreover have "length (hexdigits m) = 1" using True by (simp add: hexdigits.simps [of m])
      ultimately show ?thesis using "1.prems" by simp
    qed
  next
    case False
    show ?thesis
    proof (cases "n < 16")
      case True
      from False have "length (hexdigits m) \<ge> 2"
        using hexdigits_nonempty [of "m div 16"]
        by (cases "hexdigits (m div 16)") (simp_all add: hexdigits.simps [of m])
      moreover have "length (hexdigits n) = 1" using True by (simp add: hexdigits.simps [of n])
      ultimately show ?thesis using "1.prems" by simp
    next
      case n: False
      from "1.prems" False n have
        d: "hexdigits (m div 16) = hexdigits (n div 16)" and
        l: "''0123456789abcdef'' ! (m mod 16) = ''0123456789abcdef'' ! (n mod 16)"
        by (simp_all add: hexdigits.simps [of m] hexdigits.simps [of n])
      from "1.IH" [OF False d] have q: "m div 16 = n div 16" .
      have r: "m mod 16 = n mod 16" using l by (intro hexchar_inj) simp_all
      from q r show ?thesis by (metis div_mult_mod_eq)
    qed
  qed
qed

lemma format_x_inj: "0 \<le> a \<Longrightarrow> 0 \<le> b \<Longrightarrow> format_x a = format_x b \<Longrightarrow> a = b"
  by (auto simp: format_x_def dest: hexdigits_inj)

lemma decdigits_nonempty: "decdigits n \<noteq> []"
  by (subst decdigits.simps) simp

lemma decchar_inj:
  assumes "i < 10" "j < 10" "''0123456789'' ! i = ''0123456789'' ! j"
  shows "i = j"
proof -
  have "distinct ''0123456789''" by simp
  moreover have "i < length ''0123456789''" "j < length ''0123456789''"
    using assms(1,2) by simp_all
  ultimately show ?thesis using assms(3) by (simp only: nth_eq_iff_index_eq)
qed

lemma decdigits_inj: "decdigits m = decdigits n \<Longrightarrow> m = n"
proof (induction m arbitrary: n rule: decdigits.induct)
  case (1 m)
  show ?case
  proof (cases "m < 10")
    case True
    show ?thesis
    proof (cases "n < 10")
      case n: True
      from "1.prems" True n have "''0123456789'' ! m = ''0123456789'' ! n"
        by (simp add: decdigits.simps [of m] decdigits.simps [of n])
      then show ?thesis using True n by (intro decchar_inj)
    next
      case False
      then have "length (decdigits n) \<ge> 2"
        using decdigits_nonempty [of "n div 10"]
        by (cases "decdigits (n div 10)") (simp_all add: decdigits.simps [of n])
      moreover have "length (decdigits m) = 1" using True by (simp add: decdigits.simps [of m])
      ultimately show ?thesis using "1.prems" by simp
    qed
  next
    case False
    show ?thesis
    proof (cases "n < 10")
      case True
      from False have "length (decdigits m) \<ge> 2"
        using decdigits_nonempty [of "m div 10"]
        by (cases "decdigits (m div 10)") (simp_all add: decdigits.simps [of m])
      moreover have "length (decdigits n) = 1" using True by (simp add: decdigits.simps [of n])
      ultimately show ?thesis using "1.prems" by simp
    next
      case n: False
      from "1.prems" False n have
        d: "decdigits (m div 10) = decdigits (n div 10)" and
        l: "''0123456789'' ! (m mod 10) = ''0123456789'' ! (n mod 10)"
        by (simp_all add: decdigits.simps [of m] decdigits.simps [of n])
      from "1.IH" [OF False d] have q: "m div 10 = n div 10" .
      have r: "m mod 10 = n mod 10" using l by (intro decchar_inj) simp_all
      from q r show ?thesis by (metis div_mult_mod_eq)
    qed
  qed
qed

lemma format_d_inj: "0 \<le> a \<Longrightarrow> 0 \<le> b \<Longrightarrow> format_d a = format_d b \<Longrightarrow> a = b"
  by (auto simp: format_d_def dest: decdigits_inj)

lemma le_value_nonneg: "0 \<le> le_value bs"
  unfolding le_value_def by (induction bs) simp_all

lemma recvcmd_cmd_nonneg:
  assumes "Proxmark_recvcmd bo env h = (Inr r, h1)"
  shows "0 \<le> cmd r"
proof -
  from assms obtain s where r: "USBCommand_init bo (Some s) None = Inr r"
    by (auto simp: Proxmark_recvcmd_def usb_invoke_def split: sum.splits)
  show ?thesis
  proof (cases "s = []")
    case True
    with r show ?thesis
      by (auto simp: USBCommand_init_def truthy_str_def truthy_int_def USBCommand_class_def)
  next
    case False
    with r have "cmd r = unpack_I bo (take 4 (take 16 s))"
      by (auto simp: USBCommand_init_def truthy_str_def struct_unpack_IIII_def USBCommand_class_def
          split: if_splits)
    then show ?thesis by (simp add: unpack_I_def le_value_nonneg)
  qed
qed

text \<open>
  Claim C6. The two exchanges that expect an opcode. In \<open>tune\<close>, a response whose opcode
  is not \<open>0x401\<close> raises \<open>ProxError\<close> with the message \<open>"Unexpected response %x"\<close> of the opcode
  received; for opcode \<open>0x999\<close> the message is \<open>Unexpected response 999\<close>. In \<open>samples\<close>,
  at whichever chunk it happens (the chunks \<open>pre\<close> before it were answered), a response
  whose opcode is not \<open>0x205\<close> raises \<open>ProxError\<close> with the message
  \<open>"Unexpected response %d"\<close> of the opcode received. Either message determines the
  opcode: a received opcode is not negative, and two such opcodes with the same
  rendering are equal.
\<close>

theorem opcode_mismatch:
  "(Proxmark_send bo env 0x400 h = (Inr u, h1) \<longrightarrow>
    Proxmark_recvcmd bo env h1 = (Inr resp, h2) \<longrightarrow>
    cmd resp \<noteq> 0x401 \<longrightarrow>
      Proxmark_tune bo env h =
        (Inl (ProxError (''Unexpected response '' @ format_x (cmd resp))), h2) \<and>
      (cmd resp = 0x999 \<longrightarrow>
         Proxmark_tune bo env h = (Inl (ProxError ''Unexpected response 999''), h2))) \<and>
   (xrange_items 0 (min n 16000) 12 = pre @ i # post \<longrightarrow>
    chunk_exchanges bo env h pre = Some (rs, hk) \<longrightarrow>
    Proxmark_sendcmd bo env (chunk_request i) hk = (Inr u', hk1) \<longrightarrow>
    Proxmark_recvcmd bo env hk1 = (Inr r, hk2) \<longrightarrow>
    cmd r \<noteq> 0x205 \<longrightarrow>
      Proxmark_samples bo w env n h =
        (Inl (ProxError (''Unexpected response '' @ format_d (cmd r))), hk2)) \<and>
   (Proxmark_recvcmd bo env h1 = (Inr resp, h2) \<longrightarrow> 0 \<le> cmd resp) \<and>
   (0 \<le> a \<longrightarrow> 0 \<le> b \<longrightarrow> format_x a = format_x b \<longrightarrow> a = b) \<and>
   (0 \<le> a \<longrightarrow> 0 \<le> b \<longrightarrow> format_d a = format_d b \<longrightarrow> a = b)"
proof (intro conjI impI)
  assume a: "Proxmark_send bo env 0x400 h = (Inr u, h1)"
    "Proxmark_recvcmd bo env h1 = (Inr resp, h2)" "cmd resp \<noteq> 0x401"
  show t: "Proxmark_tune bo env h =
        (Inl (ProxError (''Unexpected response '' @ format_x (cmd resp))), h2)"
    by (rule tune_mismatch [OF a])
  assume "cmd resp = 0x999"
  with t show "Proxmark_tune bo env h = (Inl (ProxError ''Unexpected response 999''), h2)"
    by (simp add: format_x_999)
next
  assume "xrange_items 0 (min n 16000) 12 = pre @ i # post"
    "chunk_exchanges bo env h pre = Some (rs, hk)"
    "Proxmark_sendcmd bo env (chunk_request i) hk = (Inr u', hk1)"
    "Proxmark_recvcmd bo env hk1 = (Inr r, hk2)" "cmd r \<noteq> 0x205"
  then show "Proxmark_samples bo w env n h =
        (Inl (ProxError (''Unexpected response '' @ format_d (cmd r))), hk2)"
    by (rule samples_mismatch)
next
  assume "Proxmark_recvcmd bo env h1 = (Inr resp, h2)"
  then show "0 \<le> cmd resp" by (rule recvcmd_cmd_nonneg)
next
  assume "0 \<le> a" "0 \<le> b" "format_x a = format_x b"
  then show "a = b" by (rule format_x_inj)
next
  assume "0 \<le> a" "0 \<le> b" "format_d a = format_d b"
  then show "a = b" by (rule format_d_inj)
qed

section \<open>Draining the messages\<close>

lemma read_msgs_loop_drain:
  assumes "\<forall>j < length fs.
             fst (Proxmark_recvcmd bo env (h @ replicate j (BulkRead 0x82 64 1000))) = Inr (fs ! j)"
      and "fst (Proxmark_recvcmd bo env (h @ replicate (length fs) (BulkRead 0x82 64 1000))) = Inl e"
  shows "read_msgs_loop bo env msgs h =
           Some (msgs @ fs, h @ replicate (Suc (length fs)) (BulkRead 0x82 64 1000))"
  using assms
proof (induction fs arbitrary: h msgs)
  case Nil
  then have "Proxmark_recvcmd bo env h = (Inl e, h @ [BulkRead 0x82 64 1000])"
    using recvcmd_history [of bo env h] by (simp add: prod_eq_iff)
  then show ?case by (subst read_msgs_loop.simps) simp
next
  case (Cons f fs)
  from Cons.prems(1) have "fst (Proxmark_recvcmd bo env h) = Inr f" by fastforce
  then have first: "Proxmark_recvcmd bo env h = (Inr f, h @ [BulkRead 0x82 64 1000])"
    using recvcmd_history [of bo env h] by (simp add: prod_eq_iff)
  have step: "\<forall>j < length fs.
      fst (Proxmark_recvcmd bo env ((h @ [BulkRead 0x82 64 1000]) @ replicate j (BulkRead 0x82 64 1000)))
        = Inr (fs ! j)"
  proof (intro allI impI)
    fix j assume "j < length fs"
    then have "Suc j < length (f # fs)" by simp
    from Cons.prems(1) [rule_format, OF this] show
      "fst (Proxmark_recvcmd bo env ((h @ [BulkRead 0x82 64 1000]) @ replicate j (BulkRead 0x82 64 1000)))
        = Inr (fs ! j)"
      by simp
  qed
  have stop: "fst (Proxmark_recvcmd bo env
      ((h @ [BulkRead 0x82 64 1000]) @ replicate (length fs) (BulkRead 0x82 64 1000))) = Inl e"
    using Cons.prems(2) by simp
  have "read_msgs_loop bo env msgs h = read_msgs_loop bo env (msgs @ [f]) (h @ [BulkRead 0x82 64 1000])"
    by (subst read_msgs_loop.simps) (simp add: first)
  also have "\<dots> = Some ((msgs @ [f]) @ fs,
      (h @ [BulkRead 0x82 64 1000]) @ replicate (Suc (length fs)) (BulkRead 0x82 64 1000))"
    by (rule Cons.IH [OF step stop])
  finally show ?case by simp
qed

text \<open>
  Claim C9. When the first \<open>length fs\<close> receives deliver the frames \<open>fs\<close> and the next
  receive raises, \<open>read_msgs\<close> terminates and returns exactly \<open>fs\<close>, in the order of
  arrival; it has made one receive more than it returns frames, and the exception is
  not raised again: the result is a list, never an error.
\<close>

theorem read_msgs_drain:
  assumes "\<forall>j < length fs.
             fst (Proxmark_recvcmd bo env (h @ replicate j (BulkRead 0x82 64 1000))) = Inr (fs ! j)"
      and "fst (Proxmark_recvcmd bo env (h @ replicate (length fs) (BulkRead 0x82 64 1000))) = Inl e"
  shows "Proxmark_read_msgs bo env h =
           Some (fs, h @ replicate (Suc (length fs)) (BulkRead 0x82 64 1000))"
  using read_msgs_loop_drain [OF assms, of "[]"] by (simp add: Proxmark_read_msgs_def)

section \<open>Concrete runs\<close>

lemma chunk_reply_decode:
  "USBCommand_init LittleEndian (Some chunk_reply) None = Inr chunk_response"
  by (simp add: chunk_reply_def chunk_response_def USBCommand_init_def truthy_str_def
      struct_unpack_IIII_def unpack_I_def native_def le_value_def USBCommand_class_def)

lemma bad_reply_decode:
  "USBCommand_init LittleEndian (Some bad_reply) None = Inr bad_response"
  by (simp add: bad_reply_def bad_response_def USBCommand_init_def truthy_str_def
      struct_unpack_IIII_def unpack_I_def native_def le_value_def USBCommand_class_def)

lemma USBCommand_str_u32:
  assumes "is_u32 (cmd c)" "is_u32 (ext1 c)" "is_u32 (ext2 c)" "is_u32 (ext3 c)"
  shows "\<exists>s. USBCommand_str bo c = Inr s"
  using struct_round_trip [OF assms, of bo] by (auto simp: USBCommand_str_def)

lemma sendcmd_accepted:
  assumes "is_u32 (cmd c)" "is_u32 (ext1 c)" "is_u32 (ext2 c)" "is_u32 (ext3 c)"
      and "\<And>s. \<exists>x. env h (BulkWrite 0x01 s 1000) = Inr x"
  shows "\<exists>h1. Proxmark_sendcmd bo env c h = (Inr (), h1)"
proof -
  from USBCommand_str_u32 [OF assms(1-4)] obtain s where s: "USBCommand_str bo c = Inr s" by blast
  from assms(5) obtain x where "env h (BulkWrite 0x01 s 1000) = Inr x" by blast
  with s show ?thesis by (simp add: Proxmark_sendcmd_def usb_invoke_def)
qed

lemma sendcmd_chunk_request:
  assumes "is_u32 i" and "\<And>s. \<exists>x. env h (BulkWrite 0x01 s 1000) = Inr x"
  shows "\<exists>h1. Proxmark_sendcmd bo env (chunk_request i) h = (Inr (), h1)"
  using assms
  by (intro sendcmd_accepted) (simp_all add: chunk_request_def USBCommand_class_def is_u32_def)

lemma answering_write: "\<exists>x. answering reply h (BulkWrite 0x01 s 1000) = Inr x"
  by (simp add: answering_def)

lemma recvcmd_answering_chunk:
  "Proxmark_recvcmd LittleEndian (answering chunk_reply) h =
     (Inr chunk_response, h @ [BulkRead 0x82 64 1000])"
  by (simp add: Proxmark_recvcmd_def usb_invoke_def answering_def chunk_reply_decode)

lemma recvcmd_answering_bad:
  "Proxmark_recvcmd LittleEndian (answering bad_reply) h =
     (Inr bad_response, h @ [BulkRead 0x82 64 1000])"
  by (simp add: Proxmark_recvcmd_def usb_invoke_def answering_def bad_reply_decode)

lemma chunk_exchanges_answering:
  "\<forall>i \<in> set offs. is_u32 i \<Longrightarrow>
   \<exists>hk. chunk_exchanges LittleEndian (answering chunk_reply) h offs =
          Some (replicate (length offs) chunk_response, hk)"
proof (induction offs arbitrary: h)
  case Nil
  show ?case by simp
next
  case (Cons i offs)
  have "\<exists>h1. Proxmark_sendcmd LittleEndian (answering chunk_reply) (chunk_request i) h = (Inr (), h1)"
    using Cons.prems by (intro sendcmd_chunk_request answering_write) simp
  then obtain h1 where
    s: "Proxmark_sendcmd LittleEndian (answering chunk_reply) (chunk_request i) h = (Inr (), h1)"
    by blast
  from Cons.prems have "\<forall>i \<in> set offs. is_u32 i" by simp
  from Cons.IH [OF this, of "h1 @ [BulkRead 0x82 64 1000]"] obtain hk where
    "chunk_exchanges LittleEndian (answering chunk_reply) (h1 @ [BulkRead 0x82 64 1000]) offs =
       Some (replicate (length offs) chunk_response, hk)"
    by blast
  then have "chunk_exchanges LittleEndian (answering chunk_reply) h (i # offs) =
       Some (replicate (length (i # offs)) chunk_response, hk)"
    by (simp add: s recvcmd_answering_chunk) (simp add: chunk_response_def)
  then show ?case by blast
qed

lemma xrange_u32:
  assumes "n \<le> 16000"
  shows "\<forall>i \<in> set (xrange_items 0 n 12). is_u32 i"
proof
  fix i assume "i \<in> set (xrange_items 0 n 12)"
  then obtain k where k: "k < nat ((n + 11) div 12)" and i: "i = 12 * int k"
    by (auto simp: xrange_0_12)
  from k have "int k < (n + 11) div 12" by simp
  then have "12 * int k < n + 11" by simp
  with assms i show "is_u32 i" by (simp add: is_u32_def)
qed

theorem samples_length_witness:
  "(0::int) < 30 \<and> (30::int) \<le> 16000 \<and>
   (\<exists>xs hk. Proxmark_samples LittleEndian Long64 (answering chunk_reply) 30 [] = (Inr xs, hk) \<and>
            length xs = 144)"
proof -
  have u: "\<forall>i \<in> set (xrange_items 0 30 12). is_u32 i" by (rule xrange_u32) simp
  from chunk_exchanges_answering [OF u, of "[]"] obtain hk where
    run: "chunk_exchanges LittleEndian (answering chunk_reply) [] (xrange_items 0 30 12) =
            Some (replicate (length (xrange_items 0 30 12)) chunk_response, hk)"
    by blast
  have pl: "\<forall>r \<in> set (replicate (length (xrange_items 0 30 12)) chunk_response). length (buf r) = 48"
    by (simp add: chunk_response_def)
  have c: "\<lceil>real_of_int 30 / 12\<rceil> = 3" by (simp add: ceiling_12)
  from samples_length [OF _ _ run pl] obtain xs where
    "Proxmark_samples LittleEndian Long64 (answering chunk_reply) 30 [] = (Inr xs, hk)"
    "int (length xs) = \<lceil>real_of_int 30 / 12\<rceil> * 48"
    by auto
  then show ?thesis unfolding c by auto
qed

theorem samples_clamp_chunks_witness:
  "(16000::int) < 20000 \<and>
   Proxmark_samples LittleEndian Long64 (answering chunk_reply) 20000 [] =
     Proxmark_samples LittleEndian Long64 (answering chunk_reply) 16000 [] \<and>
   (\<exists>xs t. Proxmark_samples LittleEndian Long64 (answering chunk_reply) 20000 [] = (Inr xs, t) \<and>
           length (written t) = 1334 \<and>
           map (\<lambda>s. USBCommand_init LittleEndian (Some s) None) (written t) =
             map (\<lambda>k. Inr (USBCommand_class\<lparr>cmd := 0x204, ext1 := 12 * int k\<rparr>)) [0..<1334])"
proof -
  have u: "\<forall>i \<in> set (xrange_items 0 16000 12). is_u32 i" by (rule xrange_u32) simp
  from chunk_exchanges_answering [OF u, of "[]"] obtain hk where
    run: "chunk_exchanges LittleEndian (answering chunk_reply) [] (xrange_items 0 16000 12) =
            Some (replicate (length (xrange_items 0 16000 12)) chunk_response, hk)"
    by blast
  have lt: "(16000::int) < 20000" by simp
  have "Proxmark_samples LittleEndian Long64 (answering chunk_reply) 20000 [] =
     Proxmark_samples LittleEndian Long64 (answering chunk_reply) 16000 [] \<and>
   (\<exists>xs t. Proxmark_samples LittleEndian Long64 (answering chunk_reply) 20000 [] = (Inr xs, [] @ t) \<and>
           length (written t) = 1334 \<and>
           map (\<lambda>s. USBCommand_init LittleEndian (Some s) None) (written t) =
             map (\<lambda>k. Inr (USBCommand_class\<lparr>cmd := 0x204, ext1 := 12 * int k\<rparr>)) [0..<1334])"
    by (rule samples_clamp_chunks [OF lt run])
  then show ?thesis unfolding append_Nil using lt by blast
qed

theorem sample_byte_mapping_witness:
  "\<exists>hk. Proxmark_samples LittleEndian Long64 (answering chunk_reply) 12 [] =
          (Inr (replicate 16 (- 128) @ replicate 16 0 @ replicate 16 127), hk) \<and>
        (\<exists>rs. chunk_exchanges LittleEndian (answering chunk_reply) [] (xrange_items 0 (min 12 16000) 12) =
               Some (rs, hk))"
proof -
  have u: "\<forall>i \<in> set (xrange_items 0 (min 12 16000) 12). is_u32 i" by (rule xrange_u32) simp
  from chunk_exchanges_answering [OF u, of "[]"] obtain hk where
    run: "chunk_exchanges LittleEndian (answering chunk_reply) [] (xrange_items 0 (min 12 16000) 12) =
            Some (replicate (length (xrange_items 0 (min 12 16000) 12)) chunk_response, hk)"
    by blast
  have one: "length (xrange_items 0 (min 12 16000) 12) = 1" by (simp add: length_xrange_0_12)
  have s: "samples_of [chunk_response] = replicate 16 (- 128) @ replicate 16 0 @ replicate 16 127"
    by (simp add: samples_of_def chunk_response_def)
  have res: "Proxmark_samples LittleEndian Long64 (answering chunk_reply) 12 [] =
          (Inr (replicate 16 (- 128) @ replicate 16 0 @ replicate 16 127), hk)"
    using samples_run [OF _ run, of Long64] unfolding one by (simp add: s sys_maxint_def)
  from sample_byte_mapping [OF res] res show ?thesis by blast
qed

lemma send_accepted:
  assumes "is_u32 c" "c \<noteq> 0" and "\<And>s. \<exists>x. env h (BulkWrite 0x01 s 1000) = Inr x"
  shows "\<exists>h1. Proxmark_send bo env c h = (Inr (), h1)"
proof -
  have "\<exists>h1. Proxmark_sendcmd bo env (USBCommand_class\<lparr>cmd := c\<rparr>) h = (Inr (), h1)"
    using assms(1,3) by (intro sendcmd_accepted) (simp_all add: USBCommand_class_def is_u32_def)
  then show ?thesis using assms(2) by (simp add: Proxmark_send_def USBCommand_init_cmd)
qed

theorem opcode_mismatch_witness:
  "fst (Proxmark_tune LittleEndian (answering bad_reply) []) =
     Inl (ProxError ''Unexpected response 999'') \<and>
   fst (Proxmark_samples LittleEndian Long64 (answering bad_reply) 128 []) =
     Inl (ProxError ''Unexpected response 2457'')"
proof -
  let ?env = "answering bad_reply"
  have "\<exists>h1. Proxmark_send LittleEndian ?env 0x400 [] = (Inr (), h1)"
    by (intro send_accepted answering_write) (simp_all add: is_u32_def)
  then obtain h1 where a: "Proxmark_send LittleEndian ?env 0x400 [] = (Inr (), h1)" by blast
  have b: "Proxmark_recvcmd LittleEndian ?env h1 = (Inr bad_response, h1 @ [BulkRead 0x82 64 1000])"
    by (rule recvcmd_answering_bad)
  have c: "cmd bad_response \<noteq> 0x401" "cmd bad_response = 0x999"
    by (simp_all add: bad_response_def)
  have x: "xrange_items 0 (min 128 16000) 12 = [] @ 0 # xrange_items 12 128 12"
    by (simp add: xrange_items.simps [of 0 128 12])
  have p: "chunk_exchanges LittleEndian ?env [] [] = Some ([], [])" by simp
  have "\<exists>hk1. Proxmark_sendcmd LittleEndian ?env (chunk_request 0) [] = (Inr (), hk1)"
    by (intro sendcmd_chunk_request answering_write) (simp add: is_u32_def)
  then obtain hk1 where
    s: "Proxmark_sendcmd LittleEndian ?env (chunk_request 0) [] = (Inr (), hk1)" by blast
  have r: "Proxmark_recvcmd LittleEndian ?env hk1 = (Inr bad_response, hk1 @ [BulkRead 0x82 64 1000])"
    by (rule recvcmd_answering_bad)
  have d: "cmd bad_response \<noteq> 0x205" by (simp add: bad_response_def)
  note m = opcode_mismatch [where bo = LittleEndian and env = ?env and h = "[]" and u = "()"
      and ?h1.0 = h1 and resp = bad_response and ?h2.0 = "h1 @ [BulkRead 0x82 64 1000]"
      and n = 128 and pre = "[]" and i = 0 and post = "xrange_items 12 128 12" and rs = "[]"
      and hk = "[]" and u' = "()" and ?hk1.0 = hk1 and r = bad_response
      and ?hk2.0 = "hk1 @ [BulkRead 0x82 64 1000]"]
  from m a b c have t: "Proxmark_tune LittleEndian ?env [] =
      (Inl (ProxError ''Unexpected response 999''), h1 @ [BulkRead 0x82 64 1000])"
    by blast
  from m x p s r d have "Proxmark_samples LittleEndian Long64 ?env 128 [] =
      (Inl (ProxError (''Unexpected response '' @ format_d (cmd bad_response))),
       hk1 @ [BulkRead 0x82 64 1000])"
    by blast
  then have "fst (Proxmark_samples LittleEndian Long64 ?env 128 []) =
      Inl (ProxError ''Unexpected response 2457'')"
    using format_d_999 by (simp add: bad_response_def)
  with t show ?thesis by simp
qed

lemma recvcmd_scripted:
  "fst (Proxmark_recvcmd LittleEndian (scripted replies) (replicate j (BulkRead 0x82 64 1000))) =
     (if j < length replies
      then (case USBCommand_init LittleEndian (Some (replies ! j)) None of
              Inl e \<Rightarrow> Inl e | Inr c \<Rightarrow> Inr c)
      else Inl USBError)"
  by (simp add: Proxmark_recvcmd_def usb_invoke_def scripted_def split: sum.splits)

theorem read_msgs_drain_witness:
  "Proxmark_read_msgs LittleEndian (scripted [chunk_reply, bad_reply]) [] =
     Some ([chunk_response, bad_response], replicate 3 (BulkRead 0x82 64 1000))"
proof -
  let ?env = "scripted [chunk_reply, bad_reply]"
  let ?fs = "[chunk_response, bad_response]"
  have ok: "\<forall>j < length ?fs.
      fst (Proxmark_recvcmd LittleEndian ?env ([] @ replicate j (BulkRead 0x82 64 1000))) = Inr (?fs ! j)"
  proof (intro allI impI)
    fix j assume "j < length ?fs"
    then have "j = 0 \<or> j = 1" by auto
    then show "fst (Proxmark_recvcmd LittleEndian ?env ([] @ replicate j (BulkRead 0x82 64 1000)))
                 = Inr (?fs ! j)"
      unfolding append_Nil recvcmd_scripted
      by (auto simp: chunk_reply_decode bad_reply_decode)
  qed
  have stop: "fst (Proxmark_recvcmd LittleEndian ?env
      ([] @ replicate (length ?fs) (BulkRead 0x82 64 1000))) = Inl USBError"
    unfolding append_Nil recvcmd_scripted by simp
  from read_msgs_drain [OF ok stop] show ?thesis by (simp add: numeral_3_eq_3)
qed

end
